theory Spec2Isabelle
  imports Main "HOL-Library.Word" "HOL-Library.State_Monad" "HOL-Library.Sublist"
begin

unbundle bit_operations_syntax

section \<open>The romstage entry point of the AMD Inagua mainboard\<close>

text \<open>
  The file \<^verbatim>\<open>src/mainboard/amd/inagua/romstage.c\<close> holds one function,
  \<^verbatim>\<open>cache_as_ram_main\<close>: a straight line of calls into the chipset, super-I/O, AGESA
  and console code, with one conditional block. None of the callees is part of the file, so
  what the function does is the sequence of calls it makes, with their arguments, and whether
  it ever hands control back to its caller. The model records exactly that: every call
  appends itself to a trace, and a call that does not come back (a halt inside the callee, or
  the jump into the next stage) ends the run.
\<close>

subsection \<open>Machine integers and the calls the function makes\<close>

text \<open>
  The romstage of this board is 32-bit x86 code: \<^verbatim>\<open>unsigned long\<close> and \<^verbatim>\<open>u32\<close> are 32 bits
  wide, the argument of \<^verbatim>\<open>post_code\<close> is a byte.
\<close>

type_synonym ulong = "32 word"
type_synonym u32 = "32 word"
type_synonym u8 = "8 word"

text \<open>The two console log levels the function uses (\<^verbatim>\<open>commonlib/loglevel.h\<close>).\<close>

datatype loglevel = BIOS_ERR | BIOS_DEBUG

text \<open>
  One constructor for each function called by \<^verbatim>\<open>cache_as_ram_main\<close>, carrying the actual
  arguments. \<^verbatim>\<open>Printk\<close> carries the format string and the variadic arguments.
\<close>

datatype call =
    Amd_initmmio
  | Boot_cpu
  | Post_code u8
  | Sb_Poweron_Init
  | Kbc1100_early_init u32
  | Kbc1100_early_serial u32 u32
  | Console_init
  | Report_bist_failure ulong
  | Cpuid_eax u32
  | Printk loglevel string "ulong list"
  | Agesawrapper_amdinitreset
  | Agesawrapper_amdinitearly
  | Agesawrapper_amdinitpost
  | Agesawrapper_amdinitenv
  | Amd_initenv
  | Copy_and_run

subsection \<open>The platform the function runs on\<close>

text \<open>
  Everything the function takes from outside its own text is a field of the platform:
  \<^item> \<open>bsp\<close>: the answer of \<^verbatim>\<open>boot_cpu()\<close>, true on the boot-strap processor;
  \<^item> \<open>cpuid\<close>: the value that \<^verbatim>\<open>cpuid_eax\<close> reads for a leaf;
  \<^item> \<open>returns\<close>: for each opaque call (chipset, super-I/O, console, AGESA, the jump to the
    next stage) whether it hands control back. A vendor routine may halt the machine instead
    of returning, and \<^verbatim>\<open>copy_and_run\<close> is meant never to return;
  \<^item> \<open>PNP_DEV\<close>, \<open>SMSCSUPERIO_SP1\<close>, \<open>CONFIG_TTYS0_BASE\<close>: the macro and the two constants of
    headers and build configuration that the file uses and does not define.

  No call occurs twice with the same arguments in the body (lemma \<open>full_sequence_distinct\<close>
  below), so a function of the call describes the platform as generally as a function of the
  whole history would.
\<close>

record platform =
  bsp :: bool
  cpuid :: "u32 \<Rightarrow> u32"
  returns :: "call \<Rightarrow> bool"
  PNP_DEV :: "u32 \<Rightarrow> u32 \<Rightarrow> u32"
  SMSCSUPERIO_SP1 :: u32
  CONFIG_TTYS0_BASE :: u32

text \<open>\<^verbatim>\<open>#define SERIAL_DEV PNP_DEV(0x2e, SMSCSUPERIO_SP1)\<close>\<close>

definition SERIAL_DEV :: "platform \<Rightarrow> u32" where
  "SERIAL_DEV p = PNP_DEV p 0x2e (SMSCSUPERIO_SP1 p)"

text \<open>
  Modelled from the spec: \<^verbatim>\<open>report_bist_failure\<close> (\<^verbatim>\<open>cpu/x86/bist.h\<close>) is not among
  the sources. The spec gives its contract: it ``consumes \<^verbatim>\<open>bist\<close>; halts on nonzero''.
  So the call comes back exactly when the self-test code is zero.
\<close>

definition report_bist_failure_returns :: "ulong \<Rightarrow> bool" where
  "report_bist_failure_returns bist = (bist = 0)"

text \<open>
  Modelled from the spec: \<^verbatim>\<open>post_code\<close> and \<^verbatim>\<open>printk\<close> are not among the sources. The
  spec calls them diagnostic sinks, ``always side-effect-only, never fails observably to the
  caller'': they always come back. \<^verbatim>\<open>boot_cpu\<close> and \<^verbatim>\<open>cpuid_eax\<close> only read the
  processor's identity and come back with the value. Every other call is opaque, and the
  platform says whether it returns.
\<close>

fun comes_back :: "platform \<Rightarrow> call \<Rightarrow> bool" where
  "comes_back p (Post_code c) = True"
| "comes_back p (Printk l fmt args) = True"
| "comes_back p Boot_cpu = True"
| "comes_back p (Cpuid_eax leaf) = True"
| "comes_back p (Report_bist_failure bist) = report_bist_failure_returns bist"
| "comes_back p c = returns p c"

subsection \<open>State: the trace of calls, and whether the function still has control\<close>

text \<open>
  \<open>trace\<close> lists the calls made so far, oldest first. \<open>running\<close> is true while
  \<^verbatim>\<open>cache_as_ram_main\<close> has control; it becomes false when a callee does not come back, and
  from then on nothing more happens. At the end of the body, \<open>running\<close> says that the
  function returned to its caller.
\<close>

record machine =
  trace :: "call list"
  running :: bool

definition at_entry :: machine where
  "at_entry = \<lparr>trace = [], running = True\<rparr>"

definition step :: "platform \<Rightarrow> call \<Rightarrow> machine \<Rightarrow> machine" where
  "step p c m =
     (if running m then \<lparr>trace = trace m @ [c], running = comes_back p c\<rparr> else m)"

text \<open>A call to an external function: one step of the machine, and the value it gives back.\<close>

definition extern :: "platform \<Rightarrow> call \<Rightarrow> 'a \<Rightarrow> (machine, 'a) state" where
  "extern p c v = State (\<lambda>m. (v, step p c m))"

definition amd_initmmio :: "platform \<Rightarrow> (machine, unit) state" where
  "amd_initmmio p = extern p Amd_initmmio ()"

definition boot_cpu :: "platform \<Rightarrow> (machine, bool) state" where
  "boot_cpu p = extern p Boot_cpu (bsp p)"

definition post_code :: "platform \<Rightarrow> u8 \<Rightarrow> (machine, unit) state" where
  "post_code p c = extern p (Post_code c) ()"

definition sb_Poweron_Init :: "platform \<Rightarrow> (machine, unit) state" where
  "sb_Poweron_Init p = extern p Sb_Poweron_Init ()"

definition kbc1100_early_init :: "platform \<Rightarrow> u32 \<Rightarrow> (machine, unit) state" where
  "kbc1100_early_init p port = extern p (Kbc1100_early_init port) ()"

definition kbc1100_early_serial :: "platform \<Rightarrow> u32 \<Rightarrow> u32 \<Rightarrow> (machine, unit) state" where
  "kbc1100_early_serial p dev iobase = extern p (Kbc1100_early_serial dev iobase) ()"

definition console_init :: "platform \<Rightarrow> (machine, unit) state" where
  "console_init p = extern p Console_init ()"

definition report_bist_failure :: "platform \<Rightarrow> ulong \<Rightarrow> (machine, unit) state" where
  "report_bist_failure p bist = extern p (Report_bist_failure bist) ()"

definition cpuid_eax :: "platform \<Rightarrow> u32 \<Rightarrow> (machine, u32) state" where
  "cpuid_eax p leaf = extern p (Cpuid_eax leaf) (cpuid p leaf)"

definition printk :: "platform \<Rightarrow> loglevel \<Rightarrow> string \<Rightarrow> ulong list \<Rightarrow> (machine, unit) state" where
  "printk p l fmt args = extern p (Printk l fmt args) ()"

definition agesawrapper_amdinitreset :: "platform \<Rightarrow> (machine, unit) state" where
  "agesawrapper_amdinitreset p = extern p Agesawrapper_amdinitreset ()"

definition agesawrapper_amdinitearly :: "platform \<Rightarrow> (machine, unit) state" where
  "agesawrapper_amdinitearly p = extern p Agesawrapper_amdinitearly ()"

definition agesawrapper_amdinitpost :: "platform \<Rightarrow> (machine, unit) state" where
  "agesawrapper_amdinitpost p = extern p Agesawrapper_amdinitpost ()"

definition agesawrapper_amdinitenv :: "platform \<Rightarrow> (machine, unit) state" where
  "agesawrapper_amdinitenv p = extern p Agesawrapper_amdinitenv ()"

definition amd_initenv :: "platform \<Rightarrow> (machine, unit) state" where
  "amd_initenv p = extern p Amd_initenv ()"

definition copy_and_run :: "platform \<Rightarrow> (machine, unit) state" where
  "copy_and_run p = extern p Copy_and_run ()"

subsection \<open>The function\<close>

text \<open>
  Statement for statement the body of \<^verbatim>\<open>cache_as_ram_main\<close>. The condition
  \<^verbatim>\<open>!cpu_init_detectedx && boot_cpu()\<close> evaluates left to right and calls \<^verbatim>\<open>boot_cpu\<close>
  only when \<^verbatim>\<open>cpu_init_detectedx\<close> is zero.
\<close>

definition cache_as_ram_main :: "platform \<Rightarrow> ulong \<Rightarrow> ulong \<Rightarrow> (machine, unit) state" where
  "cache_as_ram_main p bist cpu_init_detectedx = do {
     amd_initmmio p;
     gate \<leftarrow> (if cpu_init_detectedx = 0 then boot_cpu p else State_Monad.return False);
     (if gate then do {
        post_code p 0x30;
        sb_Poweron_Init p;
        post_code p 0x31;
        kbc1100_early_init p 0x2e;
        kbc1100_early_serial p (SERIAL_DEV p) (CONFIG_TTYS0_BASE p);
        console_init p
      } else State_Monad.return ());
     post_code p 0x34;
     report_bist_failure p bist;
     val \<leftarrow> cpuid_eax p 1;
     printk p BIOS_DEBUG ''BSP Family_Model: %08x\<newline>'' [val];
     printk p BIOS_DEBUG ''cpu_init_detectedx = %08lx\<newline>'' [cpu_init_detectedx];
     post_code p 0x37;
     agesawrapper_amdinitreset p;
     post_code p 0x39;
     agesawrapper_amdinitearly p;
     post_code p 0x40;
     agesawrapper_amdinitpost p;
     post_code p 0x41;
     agesawrapper_amdinitenv p;
     amd_initenv p;
     post_code p 0x50;
     copy_and_run p;
     printk p BIOS_ERR ''Error: copy_and_run() returned!\<newline>'' [];
     post_code p 0x54
   }"

text \<open>One invocation, from the state at entry: the final machine state.\<close>

definition invoke :: "platform \<Rightarrow> ulong \<Rightarrow> ulong \<Rightarrow> machine" where
  "invoke p bist cpu_init_detectedx =
     snd (run_state (cache_as_ram_main p bist cpu_init_detectedx) at_entry)"

definition returned :: "machine \<Rightarrow> bool" where
  "returned m = running m"

subsection \<open>Reading a trace\<close>

text \<open>The checkpoint codes of a trace, in the order of their emission.\<close>

fun checkpoints :: "call list \<Rightarrow> u8 list" where
  "checkpoints [] = []"
| "checkpoints (Post_code c # cs) = c # checkpoints cs"
| "checkpoints (c # cs) = checkpoints cs"

text \<open>
  The operations of the conditional block: power-on init of the southbridge, early init of
  the super-I/O and of its serial port, console init. With the two checkpoints of the block
  they are all the calls between the braces.
\<close>

fun gated_operation :: "call \<Rightarrow> bool" where
  "gated_operation Sb_Poweron_Init = True"
| "gated_operation (Kbc1100_early_init port) = True"
| "gated_operation (Kbc1100_early_serial dev iobase) = True"
| "gated_operation Console_init = True"
| "gated_operation c = False"

definition in_gated_block :: "call \<Rightarrow> bool" where
  "in_gated_block c = (gated_operation c \<or> c = Post_code 0x30 \<or> c = Post_code 0x31)"

text \<open>The four AGESA phase calls and the board's own \<^verbatim>\<open>amd_initenv\<close>.\<close>

fun vendor_step :: "call \<Rightarrow> bool" where
  "vendor_step Agesawrapper_amdinitreset = True"
| "vendor_step Agesawrapper_amdinitearly = True"
| "vendor_step Agesawrapper_amdinitpost = True"
| "vendor_step Agesawrapper_amdinitenv = True"
| "vendor_step Amd_initenv = True"
| "vendor_step c = False"

text \<open>
  The calls that stand behind \<^verbatim>\<open>report_bist_failure(bist)\<close> in the body: the reads and
  prints of the logging, the checkpoints from 0x37 on, the vendor steps and the hand-over.
\<close>

fun follows_bist_report :: "call \<Rightarrow> bool" where
  "follows_bist_report (Cpuid_eax leaf) = True"
| "follows_bist_report (Printk l fmt args) = True"
| "follows_bist_report (Post_code c) = (c \<in> {0x37, 0x39, 0x40, 0x41, 0x50, 0x54})"
| "follows_bist_report Copy_and_run = True"
| "follows_bist_report c = vendor_step c"

text \<open>
  The logging step is the three calls from \<^verbatim>\<open>cpuid_eax(1)\<close> to the second
  \<^verbatim>\<open>printk\<close>. What a trace holds behind the step: everything after the first
  \<^verbatim>\<open>cpuid_eax(1)\<close> and the two calls that follow it.
\<close>

definition after_logging :: "call list \<Rightarrow> call list" where
  "after_logging tr = drop 3 (dropWhile (\<lambda>c. c \<noteq> Cpuid_eax 1) tr)"

subsection \<open>Example platforms\<close>

text \<open>
  The boot-strap processor of a board on which every call comes back but the jump into the
  next stage: the good case. The values are those of an Inagua build (family 14h, the
  serial port of the KBC1100 at 0x3f8); the properties below hold for every platform.
\<close>

definition inagua_bsp :: platform where
  "inagua_bsp =
     \<lparr>bsp = True, cpuid = (\<lambda>leaf. 0x500F10), returns = (\<lambda>c. c \<noteq> Copy_and_run),
      PNP_DEV = (\<lambda>port func. push_bit 8 port OR func), SMSCSUPERIO_SP1 = 4,
      CONFIG_TTYS0_BASE = 0x3f8\<rparr>"

text \<open>The same board seen from an application processor.\<close>

definition inagua_ap :: platform where
  "inagua_ap = inagua_bsp\<lparr>bsp := False\<rparr>"

text \<open>The same board with a next stage that breaks the protocol and returns.\<close>

definition inagua_returning :: platform where
  "inagua_returning = inagua_bsp\<lparr>returns := (\<lambda>c. True)\<rparr>"

text \<open>The same board with a processor of another stepping.\<close>

definition inagua_other_cpu :: platform where
  "inagua_other_cpu = inagua_bsp\<lparr>cpuid := (\<lambda>leaf. 0x500F20)\<rparr>"

subsection \<open>The body as a sequence of calls\<close>

text \<open>
  The calls of the body in program order, for the case that each of them comes back. The run
  of the function performs them one after the other until one does not come back.
\<close>

definition gated_block :: "platform \<Rightarrow> call list" where
  "gated_block p =
     [Post_code 0x30, Sb_Poweron_Init, Post_code 0x31, Kbc1100_early_init 0x2e,
      Kbc1100_early_serial (SERIAL_DEV p) (CONFIG_TTYS0_BASE p), Console_init]"

definition logging :: "platform \<Rightarrow> ulong \<Rightarrow> call list" where
  "logging p cpu_init_detectedx =
     [Cpuid_eax 1,
      Printk BIOS_DEBUG ''BSP Family_Model: %08x\<newline>'' [cpuid p 1],
      Printk BIOS_DEBUG ''cpu_init_detectedx = %08lx\<newline>'' [cpu_init_detectedx]]"

definition vendor_phases :: "call list" where
  "vendor_phases =
     [Post_code 0x37, Agesawrapper_amdinitreset,
      Post_code 0x39, Agesawrapper_amdinitearly,
      Post_code 0x40, Agesawrapper_amdinitpost,
      Post_code 0x41, Agesawrapper_amdinitenv, Amd_initenv]"

definition hand_over :: "call list" where
  "hand_over =
     [Post_code 0x50, Copy_and_run,
      Printk BIOS_ERR ''Error: copy_and_run() returned!\<newline>'' [], Post_code 0x54]"

definition before_bist_report :: "platform \<Rightarrow> ulong \<Rightarrow> call list" where
  "before_bist_report p cpu_init_detectedx =
     Amd_initmmio #
     (if cpu_init_detectedx = 0 then [Boot_cpu] else []) @
     (if cpu_init_detectedx = 0 \<and> bsp p then gated_block p else []) @
     [Post_code 0x34]"

definition full_sequence :: "platform \<Rightarrow> ulong \<Rightarrow> ulong \<Rightarrow> call list" where
  "full_sequence p bist cpu_init_detectedx =
     before_bist_report p cpu_init_detectedx @ [Report_bist_failure bist] @
     logging p cpu_init_detectedx @ vendor_phases @ hand_over"

text \<open>Performing a list of calls from a machine state.\<close>

fun play :: "platform \<Rightarrow> call list \<Rightarrow> machine \<Rightarrow> machine" where
  "play p [] m = m"
| "play p (c # cs) m = play p cs (step p c m)"

text \<open>The calls of a list that are reached: all up to the first that does not come back.\<close>

fun reached :: "platform \<Rightarrow> call list \<Rightarrow> call list" where
  "reached p [] = []"
| "reached p (c # cs) = c # (if comes_back p c then reached p cs else [])"

section \<open>The run is the call sequence, cut at the first call that does not come back\<close>

lemma run_state_extern: "run_state (extern p c v) m = (v, step p c m)"
  by (simp add: extern_def)

lemmas extern_defs =
  amd_initmmio_def boot_cpu_def post_code_def sb_Poweron_Init_def kbc1100_early_init_def
  kbc1100_early_serial_def console_init_def report_bist_failure_def cpuid_eax_def printk_def
  agesawrapper_amdinitreset_def agesawrapper_amdinitearly_def agesawrapper_amdinitpost_def
  agesawrapper_amdinitenv_def amd_initenv_def copy_and_run_def

lemmas sequence_defs =
  full_sequence_def before_bist_report_def gated_block_def logging_def vendor_phases_def
  hand_over_def

lemma cache_as_ram_main_plays:
  "run_state (cache_as_ram_main p bist cid) m = ((), play p (full_sequence p bist cid) m)"
  by (simp add: cache_as_ram_main_def sequence_defs extern_defs run_state_extern)

lemma play_halted: "\<not> running m \<Longrightarrow> play p cs m = m"
  by (induction cs arbitrary: m) (simp_all add: step_def)

lemma play_running:
  "running m \<Longrightarrow>
   play p cs m = \<lparr>trace = trace m @ reached p cs, running = list_all (comes_back p) cs\<rparr>"
proof (induction cs arbitrary: m)
  case Nil
  then show ?case by simp
next
  case (Cons c cs)
  show ?case
  proof (cases "comes_back p c")
    case True
    with Cons.prems have "running (step p c m)" and "trace (step p c m) = trace m @ [c]"
      by (simp_all add: step_def)
    with Cons.IH [of "step p c m"] True show ?thesis by simp
  next
    case False
    with Cons.prems have "\<not> running (step p c m)" and "step p c m = \<lparr>trace = trace m @ [c], running = False\<rparr>"
      by (simp_all add: step_def)
    with False show ?thesis by (simp add: play_halted)
  qed
qed

lemma trace_invoke: "trace (invoke p bist cid) = reached p (full_sequence p bist cid)"
  by (simp add: invoke_def cache_as_ram_main_plays at_entry_def play_running)

lemma running_invoke:
  "running (invoke p bist cid) = list_all (comes_back p) (full_sequence p bist cid)"
  by (simp add: invoke_def cache_as_ram_main_plays at_entry_def play_running)

lemma reached_prefix: "prefix (reached p cs) cs"
  by (induction cs) simp_all

lemma reached_all: "list_all (comes_back p) cs \<Longrightarrow> reached p cs = cs"
  by (induction cs) simp_all

lemma reached_append:
  "reached p (cs @ ds) = (if list_all (comes_back p) cs then cs @ reached p ds else reached p cs)"
  by (induction cs) simp_all

lemma full_sequence_distinct: "distinct (full_sequence p bist cid)"
  by (simp add: sequence_defs)

lemma set_reached: "set (reached p cs) \<subseteq> set cs"
  using reached_prefix [of p cs] by (rule set_mono_prefix)

lemma comes_back_cong: "returns p' = returns p \<Longrightarrow> comes_back p' c = comes_back p c"
  by (cases c) simp_all

lemma reached_cong:
  assumes "returns p' = returns p"
  shows "reached p' cs = reached p cs"
  by (induction cs) (simp_all add: comes_back_cong [OF assms])

lemma in_trace_in_sequence:
  "c \<in> set (trace (invoke p bist cid)) \<Longrightarrow> c \<in> set (full_sequence p bist cid)"
  unfolding trace_invoke using set_reached by (rule subsetD)

subsection \<open>Checkpoints of a prefix\<close>

lemma checkpoints_append: "checkpoints (xs @ ys) = checkpoints xs @ checkpoints ys"
  by (induction xs rule: checkpoints.induct) simp_all

lemma prefix_checkpoints: "prefix xs ys \<Longrightarrow> prefix (checkpoints xs) (checkpoints ys)"
  by (auto simp: prefix_def checkpoints_append)

lemma sorted_wrt_prefix: "prefix xs ys \<Longrightarrow> sorted_wrt P ys \<Longrightarrow> sorted_wrt P xs"
  by (auto simp: prefix_def sorted_wrt_append)

lemma checkpoints_full_sequence: "sorted_wrt (<) (checkpoints (full_sequence p bist cid))"
  by (simp add: sequence_defs)

lemma checkpoints_trace_sorted: "sorted_wrt (<) (checkpoints (trace (invoke p bist cid)))"
  unfolding trace_invoke
  by (rule sorted_wrt_prefix [OF prefix_checkpoints [OF reached_prefix] checkpoints_full_sequence])

subsection \<open>What the call sequence holds\<close>

lemma full_sequence_not_gated:
  "cid \<noteq> 0 \<or> \<not> bsp p \<Longrightarrow> c \<in> set (full_sequence p bist cid) \<Longrightarrow> \<not> in_gated_block c"
  by (auto simp: sequence_defs in_gated_block_def)

section \<open>Properties of \<^verbatim>\<open>cache_as_ram_main\<close>\<close>

subsection \<open>The conditional block\<close>

lemma rest_not_gated:
  "c \<in> set ([Post_code 0x34, Report_bist_failure bist] @ logging p cid @ vendor_phases @ hand_over) \<Longrightarrow> \<not> gated_operation c"
  by (auto simp: sequence_defs)

lemma filter_gated_full_sequence:
  "cid = 0 \<Longrightarrow> bsp p \<Longrightarrow> filter gated_operation (full_sequence p bist cid) =
     [Sb_Poweron_Init, Kbc1100_early_init 0x2e,
      Kbc1100_early_serial (SERIAL_DEV p) (CONFIG_TTYS0_BASE p), Console_init]"
  by (simp add: sequence_defs)

lemma filter_gated_trace:
  assumes "cid = 0" "bsp p"
  shows "prefix (filter gated_operation (trace (invoke p bist cid)))
     [Sb_Poweron_Init, Kbc1100_early_init 0x2e,
      Kbc1100_early_serial (SERIAL_DEV p) (CONFIG_TTYS0_BASE p), Console_init]"
  using filter_mono_prefix [OF reached_prefix, of gated_operation p "full_sequence p bist cid"]
  by (simp add: trace_invoke filter_gated_full_sequence [OF assms])

lemma cold_primary_trace:
  assumes "cid = 0" and "bsp p"
    and "returns p Amd_initmmio" and "returns p Sb_Poweron_Init"
    and "returns p (Kbc1100_early_init 0x2e)"
    and "returns p (Kbc1100_early_serial (SERIAL_DEV p) (CONFIG_TTYS0_BASE p))"
  shows "trace (invoke p bist cid) =
     [Amd_initmmio, Boot_cpu, Post_code 0x30, Sb_Poweron_Init, Post_code 0x31,
      Kbc1100_early_init 0x2e, Kbc1100_early_serial (SERIAL_DEV p) (CONFIG_TTYS0_BASE p),
      Console_init] @
     (if returns p Console_init
      then reached p ([Post_code 0x34, Report_bist_failure bist] @ logging p cid @ vendor_phases @ hand_over)
      else [])"
  using assms by (simp add: trace_invoke full_sequence_def before_bist_report_def gated_block_def)

text \<open>
  C1. On the cold path (\<^verbatim>\<open>cpu_init_detectedx\<close> zero) of the boot-strap processor the
  operations of the conditional block run once each, in the order of the source, and
  \<^verbatim>\<open>amd_initmmio\<close> runs before them. On every platform the block's operations in the
  trace are an initial part of the four, so none runs twice or out of order. When the calls
  that stand before the end of the block come back, all four run: the trace starts with
  \<^verbatim>\<open>amd_initmmio\<close>, the gating test and the whole block, and no operation of the block
  follows later.
\<close>

theorem gated_block_exactly_once:
  assumes "cpu_init_detectedx = 0" and "bsp p"
  shows "prefix (filter gated_operation (trace (invoke p bist cpu_init_detectedx)))
           [Sb_Poweron_Init, Kbc1100_early_init 0x2e,
            Kbc1100_early_serial (SERIAL_DEV p) (CONFIG_TTYS0_BASE p), Console_init] \<and>
         (returns p Amd_initmmio \<and> returns p Sb_Poweron_Init \<and>
          returns p (Kbc1100_early_init 0x2e) \<and>
          returns p (Kbc1100_early_serial (SERIAL_DEV p) (CONFIG_TTYS0_BASE p)) \<longrightarrow>
          (\<exists>rest. trace (invoke p bist cpu_init_detectedx) =
             [Amd_initmmio, Boot_cpu, Post_code 0x30, Sb_Poweron_Init, Post_code 0x31,
              Kbc1100_early_init 0x2e,
              Kbc1100_early_serial (SERIAL_DEV p) (CONFIG_TTYS0_BASE p), Console_init] @ rest \<and>
             (\<forall>c\<in>set rest. \<not> gated_operation c)))"
proof (intro conjI impI)
  show "prefix (filter gated_operation (trace (invoke p bist cpu_init_detectedx)))
           [Sb_Poweron_Init, Kbc1100_early_init 0x2e,
            Kbc1100_early_serial (SERIAL_DEV p) (CONFIG_TTYS0_BASE p), Console_init]"
    using assms by (rule filter_gated_trace)
next
  let ?tail = "[Post_code 0x34, Report_bist_failure bist] @ logging p cpu_init_detectedx @ vendor_phases @ hand_over"
  let ?rest = "if returns p Console_init then reached p ?tail else []"
  assume ret: "returns p Amd_initmmio \<and> returns p Sb_Poweron_Init \<and>
          returns p (Kbc1100_early_init 0x2e) \<and>
          returns p (Kbc1100_early_serial (SERIAL_DEV p) (CONFIG_TTYS0_BASE p))"
  have shape: "trace (invoke p bist cpu_init_detectedx) =
             [Amd_initmmio, Boot_cpu, Post_code 0x30, Sb_Poweron_Init, Post_code 0x31,
              Kbc1100_early_init 0x2e,
              Kbc1100_early_serial (SERIAL_DEV p) (CONFIG_TTYS0_BASE p), Console_init] @ ?rest"
    using assms ret by (intro cold_primary_trace) simp_all
  have "\<forall>c\<in>set ?rest. \<not> gated_operation c"
  proof
    fix c assume "c \<in> set ?rest"
    then have "c \<in> set (reached p ?tail)" by (simp split: if_splits)
    then have "c \<in> set ?tail" using set_reached [of p ?tail] by (rule subsetD [rotated])
    then show "\<not> gated_operation c" by (rule rest_not_gated)
  qed
  with shape show "\<exists>rest. trace (invoke p bist cpu_init_detectedx) =
             [Amd_initmmio, Boot_cpu, Post_code 0x30, Sb_Poweron_Init, Post_code 0x31,
              Kbc1100_early_init 0x2e,
              Kbc1100_early_serial (SERIAL_DEV p) (CONFIG_TTYS0_BASE p), Console_init] @ rest \<and>
             (\<forall>c\<in>set rest. \<not> gated_operation c)"
    by (intro exI [of _ ?rest] conjI)
qed

lemma inagua_bsp_simps:
  "bsp inagua_bsp" "returns inagua_bsp c = (c \<noteq> Copy_and_run)" "cpuid inagua_bsp leaf = 0x500F10"
  "SERIAL_DEV inagua_bsp = 0x2e04" "CONFIG_TTYS0_BASE inagua_bsp = 0x3f8"
  by (simp_all add: inagua_bsp_def SERIAL_DEV_def)

theorem gated_block_exactly_once_witness:
  "\<exists>rest. trace (invoke inagua_bsp 0 0) =
      [Amd_initmmio, Boot_cpu, Post_code 0x30, Sb_Poweron_Init, Post_code 0x31,
       Kbc1100_early_init 0x2e, Kbc1100_early_serial 0x2e04 0x3f8, Console_init] @ rest \<and>
      \<not> (\<exists>c\<in>set rest. gated_operation c)"
  using gated_block_exactly_once [of 0 inagua_bsp 0]
  by (simp add: inagua_bsp_simps)

text \<open>
  C2. On the warm path (\<^verbatim>\<open>cpu_init_detectedx\<close> not zero) and on a processor that is not the
  boot-strap processor, no call of the conditional block is ever made: neither
  \<^verbatim>\<open>sb_Poweron_Init\<close>, \<^verbatim>\<open>kbc1100_early_init\<close>, \<^verbatim>\<open>kbc1100_early_serial\<close> nor
  \<^verbatim>\<open>console_init\<close>, with whatever arguments, and neither checkpoint 0x30 nor 0x31.
\<close>

theorem gated_block_skipped:
  assumes "cpu_init_detectedx \<noteq> 0 \<or> \<not> bsp p"
  shows "\<forall>c\<in>set (trace (invoke p bist cpu_init_detectedx)). \<not> in_gated_block c"
proof
  fix c
  assume "c \<in> set (trace (invoke p bist cpu_init_detectedx))"
  then have "c \<in> set (full_sequence p bist cpu_init_detectedx)"
    by (rule in_trace_in_sequence)
  with assms show "\<not> in_gated_block c"
    by (rule full_sequence_not_gated)
qed

theorem gated_block_skipped_witness:
  "\<not> (\<exists>c\<in>set (trace (invoke inagua_ap 0 0)). in_gated_block c) \<and>
   \<not> (\<exists>c\<in>set (trace (invoke inagua_bsp 0 1)). in_gated_block c)"
proof -
  have ap: "(0::ulong) \<noteq> 0 \<or> \<not> bsp inagua_ap" by (simp add: inagua_ap_def)
  have warm: "(1::ulong) \<noteq> 0 \<or> \<not> bsp inagua_bsp" by simp
  show ?thesis
    using gated_block_skipped [OF ap, of 0] gated_block_skipped [OF warm, of 0] by simp
qed

subsection \<open>Getting past a part of the sequence\<close>

lemma reached_past:
  assumes "c \<in> set (reached p (cs @ ds))" and "c \<notin> set cs"
  shows "list_all (comes_back p) cs"
proof (rule ccontr)
  assume "\<not> list_all (comes_back p) cs"
  then have "reached p (cs @ ds) = reached p cs"
    by (simp add: reached_append)
  with assms(1) have "c \<in> set (reached p cs)" by simp
  then have "c \<in> set cs" using set_reached by (rule subsetD [rotated])
  with assms(2) show False by simp
qed

lemma full_sequence_split:
  "full_sequence p bist cid =
     (before_bist_report p cid @ [Report_bist_failure bist]) @
     (logging p cid @ vendor_phases @ hand_over)"
  by (simp add: full_sequence_def)

lemma report_not_before: "Report_bist_failure bist \<notin> set (before_bist_report p cid)"
  by (simp add: before_bist_report_def gated_block_def)

lemma before_bist_report_no_vendor_step:
  "c \<in> set (before_bist_report p cid) \<Longrightarrow> \<not> vendor_step c"
  by (auto simp: before_bist_report_def gated_block_def split: if_splits)

lemma before_bist_report_not_follows:
  "c \<in> set (before_bist_report p cid) \<Longrightarrow> \<not> follows_bist_report c"
  by (auto simp: before_bist_report_def gated_block_def split: if_splits)

lemma logging_comes_back: "list_all (comes_back p) (logging p cid)"
  by (simp add: logging_def)

lemma hand_over_no_vendor_step: "c \<in> set hand_over \<Longrightarrow> \<not> vendor_step c"
  by (auto simp: hand_over_def)

text \<open>The trace of an invocation in which \<^verbatim>\<open>report_bist_failure\<close> was called and came back.\<close>

lemma trace_past_bist:
  assumes "Report_bist_failure bist \<in> set (trace (invoke p bist cid))"
    and "report_bist_failure_returns bist"
  shows "list_all (comes_back p) (before_bist_report p cid)"
    and "trace (invoke p bist cid) =
      (before_bist_report p cid @ [Report_bist_failure bist] @ logging p cid) @
      reached p (vendor_phases @ hand_over)"
proof -
  have "Report_bist_failure bist \<in>
      set (reached p (before_bist_report p cid @
        ([Report_bist_failure bist] @ logging p cid @ vendor_phases @ hand_over)))"
    using assms(1) by (simp add: trace_invoke full_sequence_def)
  then show front: "list_all (comes_back p) (before_bist_report p cid)"
    using report_not_before by (rule reached_past)
  have "list_all (comes_back p) (before_bist_report p cid @ [Report_bist_failure bist] @ logging p cid)"
    using front assms(2) by (simp add: logging_comes_back)
  then have "reached p ((before_bist_report p cid @ [Report_bist_failure bist] @ logging p cid) @
        (vendor_phases @ hand_over)) =
      (before_bist_report p cid @ [Report_bist_failure bist] @ logging p cid) @
      reached p (vendor_phases @ hand_over)"
    by (simp only: reached_append if_True)
  then show "trace (invoke p bist cid) =
      (before_bist_report p cid @ [Report_bist_failure bist] @ logging p cid) @
      reached p (vendor_phases @ hand_over)"
    by (simp add: trace_invoke full_sequence_def)
qed

lemma filter_vendor_step_full_sequence:
  "filter vendor_step (full_sequence p bist cid) =
     [Agesawrapper_amdinitreset, Agesawrapper_amdinitearly, Agesawrapper_amdinitpost,
      Agesawrapper_amdinitenv, Amd_initenv]"
  by (simp add: sequence_defs)

lemma filter_vendor_step_trace:
  "prefix (filter vendor_step (trace (invoke p bist cid)))
     [Agesawrapper_amdinitreset, Agesawrapper_amdinitearly, Agesawrapper_amdinitpost,
      Agesawrapper_amdinitenv, Amd_initenv]"
  using filter_mono_prefix [OF reached_prefix, of vendor_step p "full_sequence p bist cid"]
  by (simp add: trace_invoke filter_vendor_step_full_sequence)

lemma reached_vendor_phases:
  assumes "returns p Agesawrapper_amdinitreset" and "returns p Agesawrapper_amdinitearly"
    and "returns p Agesawrapper_amdinitpost" and "returns p Agesawrapper_amdinitenv"
  shows "reached p (vendor_phases @ hand_over) =
     [Post_code 0x37, Agesawrapper_amdinitreset, Post_code 0x39, Agesawrapper_amdinitearly,
      Post_code 0x40, Agesawrapper_amdinitpost, Post_code 0x41, Agesawrapper_amdinitenv,
      Amd_initenv] @
     (if returns p Amd_initenv then reached p hand_over else [])"
  using assms by (simp add: vendor_phases_def)

text \<open>
  C3. In every invocation that gets past the self-test check (\<^verbatim>\<open>report_bist_failure\<close> was
  called and came back), the vendor steps in the trace are an initial part of
  \<^verbatim>\<open>amdinitreset\<close>, \<^verbatim>\<open>amdinitearly\<close>, \<^verbatim>\<open>amdinitpost\<close>, \<^verbatim>\<open>amdinitenv\<close>, \<^verbatim>\<open>amd_initenv\<close>: the
  order is fixed and no step runs twice. When the four phase calls come back, the trace
  holds, in one piece, checkpoint 0x37 and the reset phase, 0x39 and the early phase, 0x40
  and the post phase, 0x41 and the env phase and then \<^verbatim>\<open>amd_initenv\<close>, and no vendor step
  stands before or behind that piece: each runs exactly once.
\<close>

theorem vendor_phases_in_order:
  assumes "Report_bist_failure bist \<in> set (trace (invoke p bist cpu_init_detectedx))"
    and "report_bist_failure_returns bist"
  shows "prefix (filter vendor_step (trace (invoke p bist cpu_init_detectedx)))
           [Agesawrapper_amdinitreset, Agesawrapper_amdinitearly, Agesawrapper_amdinitpost,
            Agesawrapper_amdinitenv, Amd_initenv] \<and>
         (returns p Agesawrapper_amdinitreset \<and> returns p Agesawrapper_amdinitearly \<and>
          returns p Agesawrapper_amdinitpost \<and> returns p Agesawrapper_amdinitenv \<longrightarrow>
          (\<exists>pre rest. trace (invoke p bist cpu_init_detectedx) =
             pre @
             [Post_code 0x37, Agesawrapper_amdinitreset, Post_code 0x39,
              Agesawrapper_amdinitearly, Post_code 0x40, Agesawrapper_amdinitpost,
              Post_code 0x41, Agesawrapper_amdinitenv, Amd_initenv] @
             rest \<and>
             (\<forall>c\<in>set pre. \<not> vendor_step c) \<and> (\<forall>c\<in>set rest. \<not> vendor_step c)))"
proof (intro conjI impI)
  show "prefix (filter vendor_step (trace (invoke p bist cpu_init_detectedx)))
           [Agesawrapper_amdinitreset, Agesawrapper_amdinitearly, Agesawrapper_amdinitpost,
            Agesawrapper_amdinitenv, Amd_initenv]"
    by (rule filter_vendor_step_trace)
next
  let ?pre = "before_bist_report p cpu_init_detectedx @ [Report_bist_failure bist] @
      logging p cpu_init_detectedx"
  let ?rest = "if returns p Amd_initenv then reached p hand_over else []"
  assume ret: "returns p Agesawrapper_amdinitreset \<and> returns p Agesawrapper_amdinitearly \<and>
          returns p Agesawrapper_amdinitpost \<and> returns p Agesawrapper_amdinitenv"
  have shape: "trace (invoke p bist cpu_init_detectedx) =
      ?pre @
      [Post_code 0x37, Agesawrapper_amdinitreset, Post_code 0x39,
       Agesawrapper_amdinitearly, Post_code 0x40, Agesawrapper_amdinitpost,
       Post_code 0x41, Agesawrapper_amdinitenv, Amd_initenv] @ ?rest"
    using ret by (simp only: trace_past_bist(2) [OF assms] reached_vendor_phases)
  have pre: "\<forall>c\<in>set ?pre. \<not> vendor_step c"
  proof
    fix c assume "c \<in> set ?pre"
    then have "c \<in> set (before_bist_report p cpu_init_detectedx) \<or>
        c \<in> set (Report_bist_failure bist # logging p cpu_init_detectedx)"
      by auto
    then show "\<not> vendor_step c"
    proof
      assume "c \<in> set (before_bist_report p cpu_init_detectedx)"
      then show ?thesis by (rule before_bist_report_no_vendor_step)
    next
      assume "c \<in> set (Report_bist_failure bist # logging p cpu_init_detectedx)"
      then show ?thesis by (auto simp: logging_def)
    qed
  qed
  have rest: "\<forall>c\<in>set ?rest. \<not> vendor_step c"
  proof
    fix c assume "c \<in> set ?rest"
    then have "c \<in> set (reached p hand_over)" by (simp split: if_splits)
    then have "c \<in> set hand_over" using set_reached by (rule subsetD [rotated])
    then show "\<not> vendor_step c" by (rule hand_over_no_vendor_step)
  qed
  from shape pre rest
  show "\<exists>pre rest. trace (invoke p bist cpu_init_detectedx) =
             pre @
             [Post_code 0x37, Agesawrapper_amdinitreset, Post_code 0x39,
              Agesawrapper_amdinitearly, Post_code 0x40, Agesawrapper_amdinitpost,
              Post_code 0x41, Agesawrapper_amdinitenv, Amd_initenv] @
             rest \<and>
             (\<forall>c\<in>set pre. \<not> vendor_step c) \<and> (\<forall>c\<in>set rest. \<not> vendor_step c)"
    by (intro exI [of _ ?pre] exI [of _ ?rest] conjI)
qed

lemma trace_inagua_bsp:
  "trace (invoke inagua_bsp 0 0) =
     [Amd_initmmio, Boot_cpu, Post_code 0x30, Sb_Poweron_Init, Post_code 0x31,
      Kbc1100_early_init 0x2e, Kbc1100_early_serial 0x2e04 0x3f8, Console_init,
      Post_code 0x34, Report_bist_failure 0, Cpuid_eax 1,
      Printk BIOS_DEBUG ''BSP Family_Model: %08x\<newline>'' [0x500F10],
      Printk BIOS_DEBUG ''cpu_init_detectedx = %08lx\<newline>'' [0],
      Post_code 0x37, Agesawrapper_amdinitreset, Post_code 0x39, Agesawrapper_amdinitearly,
      Post_code 0x40, Agesawrapper_amdinitpost, Post_code 0x41, Agesawrapper_amdinitenv,
      Amd_initenv, Post_code 0x50, Copy_and_run]"
  by (simp add: trace_invoke sequence_defs inagua_bsp_simps report_bist_failure_returns_def)

theorem vendor_phases_in_order_witness:
  "filter vendor_step (trace (invoke inagua_bsp 0 0)) =
     [Agesawrapper_amdinitreset, Agesawrapper_amdinitearly, Agesawrapper_amdinitpost,
      Agesawrapper_amdinitenv, Amd_initenv] \<and>
   (\<exists>pre rest. trace (invoke inagua_bsp 0 0) =
      pre @
      [Post_code 0x37, Agesawrapper_amdinitreset, Post_code 0x39,
       Agesawrapper_amdinitearly, Post_code 0x40, Agesawrapper_amdinitpost,
       Post_code 0x41, Agesawrapper_amdinitenv, Amd_initenv] @
      rest \<and>
      \<not> (\<exists>c\<in>set pre. vendor_step c) \<and> \<not> (\<exists>c\<in>set rest. vendor_step c))"
proof -
  have reached: "Report_bist_failure 0 \<in> set (trace (invoke inagua_bsp 0 0))"
    by (simp add: trace_inagua_bsp)
  have passes: "report_bist_failure_returns 0"
    by (simp add: report_bist_failure_returns_def)
  have "filter vendor_step (trace (invoke inagua_bsp 0 0)) =
     [Agesawrapper_amdinitreset, Agesawrapper_amdinitearly, Agesawrapper_amdinitpost,
      Agesawrapper_amdinitenv, Amd_initenv]"
    by (simp add: trace_inagua_bsp)
  then show ?thesis
    using vendor_phases_in_order [OF reached passes]
    by (simp add: inagua_bsp_simps)
qed

text \<open>
  C4. When the self-test code is not zero, \<^verbatim>\<open>report_bist_failure\<close> does not come back
  (its contract, taken from the spec), so the function never returns and nothing that stands
  behind the report in the body is reached: no \<^verbatim>\<open>cpuid_eax\<close>, no \<^verbatim>\<open>printk\<close>, none of
  the checkpoints 0x37, 0x39, 0x40, 0x41, 0x50 and 0x54, no vendor phase, no
  \<^verbatim>\<open>amd_initenv\<close> and no \<^verbatim>\<open>copy_and_run\<close>. This holds on every platform, also when an
  earlier call already halted the machine.
\<close>

theorem bist_failure_stops_the_run:
  assumes "bist \<noteq> 0"
  shows "\<not> returned (invoke p bist cpu_init_detectedx) \<and>
         (\<forall>c\<in>set (trace (invoke p bist cpu_init_detectedx)). \<not> follows_bist_report c)"
proof
  have no_return: "\<not> report_bist_failure_returns bist"
    using assms by (simp add: report_bist_failure_returns_def)
  then have halts: "\<not> list_all (comes_back p)
      (before_bist_report p cpu_init_detectedx @ [Report_bist_failure bist])"
    by simp
  from no_return show "\<not> returned (invoke p bist cpu_init_detectedx)"
    by (simp add: returned_def running_invoke full_sequence_split)
  have cut: "trace (invoke p bist cpu_init_detectedx) =
      reached p (before_bist_report p cpu_init_detectedx @ [Report_bist_failure bist])"
    using halts by (simp only: trace_invoke full_sequence_split reached_append if_False)
  show "\<forall>c\<in>set (trace (invoke p bist cpu_init_detectedx)). \<not> follows_bist_report c"
  proof
    fix c assume "c \<in> set (trace (invoke p bist cpu_init_detectedx))"
    then have "c \<in> set (before_bist_report p cpu_init_detectedx @ [Report_bist_failure bist])"
      unfolding cut using set_reached by (rule subsetD [rotated])
    then have "c \<in> set (before_bist_report p cpu_init_detectedx) \<or> c = Report_bist_failure bist"
      by auto
    then show "\<not> follows_bist_report c"
    proof
      assume "c \<in> set (before_bist_report p cpu_init_detectedx)"
      then show ?thesis by (rule before_bist_report_not_follows)
    next
      assume "c = Report_bist_failure bist"
      then show ?thesis by simp
    qed
  qed
qed

theorem bist_failure_stops_the_run_witness:
  "\<not> returned (invoke inagua_bsp 5 0) \<and>
   \<not> (\<exists>c\<in>set (trace (invoke inagua_bsp 5 0)). follows_bist_report c) \<and>
   trace (invoke inagua_bsp 5 0) =
     [Amd_initmmio, Boot_cpu, Post_code 0x30, Sb_Poweron_Init, Post_code 0x31,
      Kbc1100_early_init 0x2e, Kbc1100_early_serial 0x2e04 0x3f8, Console_init,
      Post_code 0x34, Report_bist_failure 5]"
proof -
  have nonzero: "(5::ulong) \<noteq> 0" by simp
  have "trace (invoke inagua_bsp 5 0) =
     [Amd_initmmio, Boot_cpu, Post_code 0x30, Sb_Poweron_Init, Post_code 0x31,
      Kbc1100_early_init 0x2e, Kbc1100_early_serial 0x2e04 0x3f8, Console_init,
      Post_code 0x34, Report_bist_failure 5]"
    by (simp add: trace_invoke sequence_defs inagua_bsp_simps report_bist_failure_returns_def)
  with bist_failure_stops_the_run [OF nonzero, of inagua_bsp 0] show ?thesis
    by simp
qed

subsection \<open>The hand-over\<close>

lemma copy_and_run_not_before:
  "Copy_and_run \<notin> set (before_bist_report p cid @ [Report_bist_failure bist] @
     logging p cid @ vendor_phases)"
  by (simp add: before_bist_report_def gated_block_def logging_def vendor_phases_def)

lemma terminal_not_before:
  "Post_code 0x54 \<notin> set (before_bist_report p cid @ [Report_bist_failure bist] @
     logging p cid @ vendor_phases)"
  by (simp add: before_bist_report_def gated_block_def logging_def vendor_phases_def)

lemma full_sequence_hand_over:
  "full_sequence p bist cid =
     (before_bist_report p cid @ [Report_bist_failure bist] @ logging p cid @ vendor_phases) @
     hand_over"
  by (simp add: full_sequence_def)

lemma reached_hand_over:
  "reached p hand_over =
     [Post_code 0x50, Copy_and_run] @
     (if returns p Copy_and_run
      then [Printk BIOS_ERR ''Error: copy_and_run() returned!\<newline>'' [], Post_code 0x54]
      else [])"
  by (simp add: hand_over_def)

text \<open>
  Two cases. Either every call before the hand-over comes back, and the trace is all of
  them followed by what the hand-over reaches; or one of them does not, and the trace holds
  neither \<^verbatim>\<open>copy_and_run\<close> nor checkpoint 0x54.
\<close>

lemma trace_cases:
  fixes p bist cid
  defines "front \<equiv> before_bist_report p cid @ [Report_bist_failure bist] @ logging p cid @ vendor_phases"
  shows "(list_all (comes_back p) front \<and>
          trace (invoke p bist cid) = front @ reached p hand_over \<and>
          running (invoke p bist cid) = returns p Copy_and_run) \<or>
         (\<not> list_all (comes_back p) front \<and>
          Copy_and_run \<notin> set (trace (invoke p bist cid)) \<and>
          Post_code 0x54 \<notin> set (trace (invoke p bist cid)) \<and>
          \<not> running (invoke p bist cid))"
proof (cases "list_all (comes_back p) front")
  case True
  then have "trace (invoke p bist cid) = front @ reached p hand_over"
    unfolding front_def by (simp only: trace_invoke full_sequence_hand_over reached_append if_True)
  moreover have "running (invoke p bist cid) =
      (list_all (comes_back p) front \<and> list_all (comes_back p) hand_over)"
    unfolding front_def by (simp only: running_invoke full_sequence_hand_over list_all_append)
  with True have "running (invoke p bist cid) = returns p Copy_and_run"
    by (simp add: hand_over_def)
  ultimately show ?thesis using True by simp
next
  case False
  then have cut: "trace (invoke p bist cid) = reached p front"
    unfolding front_def by (simp only: trace_invoke full_sequence_hand_over reached_append if_False)
  have sub: "set (trace (invoke p bist cid)) \<subseteq> set front"
    unfolding cut by (rule set_reached)
  have "Copy_and_run \<notin> set front" and "Post_code 0x54 \<notin> set front"
    unfolding front_def by (rule copy_and_run_not_before, rule terminal_not_before)
  with sub have "Copy_and_run \<notin> set (trace (invoke p bist cid))"
    and "Post_code 0x54 \<notin> set (trace (invoke p bist cid))"
    by (meson subsetD)+
  moreover have "running (invoke p bist cid) =
      (list_all (comes_back p) front \<and> list_all (comes_back p) hand_over)"
    unfolding front_def by (simp only: running_invoke full_sequence_hand_over list_all_append)
  with False have "\<not> running (invoke p bist cid)"
    by simp
  ultimately show ?thesis using False by simp
qed

lemma checkpoints_before_hand_over:
  "checkpoints (before_bist_report p cid @ [Report_bist_failure bist] @ logging p cid @
     vendor_phases) =
   (if cid = 0 \<and> bsp p then [0x30, 0x31] else []) @ [0x34, 0x37, 0x39, 0x40, 0x41]"
  by (simp add: before_bist_report_def gated_block_def logging_def vendor_phases_def)

lemma inagua_ap_simps:
  "\<not> bsp inagua_ap" "returns inagua_ap c = (c \<noteq> Copy_and_run)" "cpuid inagua_ap leaf = 0x500F10"
  by (simp_all add: inagua_ap_def inagua_bsp_def)

lemma inagua_returning_simps:
  "bsp inagua_returning" "returns inagua_returning c" "cpuid inagua_returning leaf = 0x500F10"
  "SERIAL_DEV inagua_returning = 0x2e04" "CONFIG_TTYS0_BASE inagua_returning = 0x3f8"
  by (simp_all add: inagua_returning_def inagua_bsp_def SERIAL_DEV_def)

lemma trace_inagua_ap:
  "trace (invoke inagua_ap 0 0) =
     [Amd_initmmio, Boot_cpu, Post_code 0x34, Report_bist_failure 0, Cpuid_eax 1,
      Printk BIOS_DEBUG ''BSP Family_Model: %08x\<newline>'' [0x500F10],
      Printk BIOS_DEBUG ''cpu_init_detectedx = %08lx\<newline>'' [0],
      Post_code 0x37, Agesawrapper_amdinitreset, Post_code 0x39, Agesawrapper_amdinitearly,
      Post_code 0x40, Agesawrapper_amdinitpost, Post_code 0x41, Agesawrapper_amdinitenv,
      Amd_initenv, Post_code 0x50, Copy_and_run]"
  by (simp add: trace_invoke sequence_defs inagua_ap_simps report_bist_failure_returns_def)

lemma trace_inagua_returning:
  "trace (invoke inagua_returning 0 0) =
     [Amd_initmmio, Boot_cpu, Post_code 0x30, Sb_Poweron_Init, Post_code 0x31,
      Kbc1100_early_init 0x2e, Kbc1100_early_serial 0x2e04 0x3f8, Console_init,
      Post_code 0x34, Report_bist_failure 0, Cpuid_eax 1,
      Printk BIOS_DEBUG ''BSP Family_Model: %08x\<newline>'' [0x500F10],
      Printk BIOS_DEBUG ''cpu_init_detectedx = %08lx\<newline>'' [0],
      Post_code 0x37, Agesawrapper_amdinitreset, Post_code 0x39, Agesawrapper_amdinitearly,
      Post_code 0x40, Agesawrapper_amdinitpost, Post_code 0x41, Agesawrapper_amdinitenv,
      Amd_initenv, Post_code 0x50, Copy_and_run,
      Printk BIOS_ERR ''Error: copy_and_run() returned!\<newline>'' [], Post_code 0x54]"
  by (simp add: trace_invoke sequence_defs inagua_returning_simps report_bist_failure_returns_def)

text \<open>
  C5. The checkpoint codes of a trace are strictly increasing, in every invocation. In a
  successful run, where \<^verbatim>\<open>copy_and_run\<close> is reached and does not come back, they are
  0x30, 0x31, 0x34, 0x37, 0x39, 0x40, 0x41, 0x50 on the path through the conditional block
  and 0x34, 0x37, 0x39, 0x40, 0x41, 0x50 on the path around it.
\<close>

theorem checkpoints_strictly_increasing:
  "sorted_wrt (<) (checkpoints (trace (invoke p bist cpu_init_detectedx))) \<and>
   (Copy_and_run \<in> set (trace (invoke p bist cpu_init_detectedx)) \<and> \<not> returns p Copy_and_run \<longrightarrow>
    checkpoints (trace (invoke p bist cpu_init_detectedx)) =
      (if cpu_init_detectedx = 0 \<and> bsp p then [0x30, 0x31] else []) @
      [0x34, 0x37, 0x39, 0x40, 0x41, 0x50])"
proof (intro conjI impI)
  show "sorted_wrt (<) (checkpoints (trace (invoke p bist cpu_init_detectedx)))"
    by (rule checkpoints_trace_sorted)
next
  assume success: "Copy_and_run \<in> set (trace (invoke p bist cpu_init_detectedx)) \<and>
    \<not> returns p Copy_and_run"
  with trace_cases [of p cpu_init_detectedx bist]
  have "trace (invoke p bist cpu_init_detectedx) =
      (before_bist_report p cpu_init_detectedx @ [Report_bist_failure bist] @
       logging p cpu_init_detectedx @ vendor_phases) @ reached p hand_over"
    by fastforce
  then have "checkpoints (trace (invoke p bist cpu_init_detectedx)) =
      checkpoints (before_bist_report p cpu_init_detectedx @ [Report_bist_failure bist] @
       logging p cpu_init_detectedx @ vendor_phases) @ checkpoints (reached p hand_over)"
    by (simp only: checkpoints_append)
  also have "checkpoints (reached p hand_over) = [0x50]"
    using success by (simp add: reached_hand_over)
  finally show "checkpoints (trace (invoke p bist cpu_init_detectedx)) =
      (if cpu_init_detectedx = 0 \<and> bsp p then [0x30, 0x31] else []) @
      [0x34, 0x37, 0x39, 0x40, 0x41, 0x50]"
    using checkpoints_before_hand_over [of p cpu_init_detectedx bist] by simp
qed

theorem checkpoints_strictly_increasing_witness:
  "checkpoints (trace (invoke inagua_bsp 0 0)) = [0x30, 0x31, 0x34, 0x37, 0x39, 0x40, 0x41, 0x50] \<and>
   sorted_wrt (<) (checkpoints (trace (invoke inagua_bsp 0 0))) \<and>
   checkpoints (trace (invoke inagua_ap 0 0)) = [0x34, 0x37, 0x39, 0x40, 0x41, 0x50] \<and>
   sorted_wrt (<) (checkpoints (trace (invoke inagua_ap 0 0)))"
proof -
  have "Copy_and_run \<in> set (trace (invoke inagua_bsp 0 0)) \<and> \<not> returns inagua_bsp Copy_and_run"
    by (simp add: trace_inagua_bsp inagua_bsp_simps)
  moreover
  have "Copy_and_run \<in> set (trace (invoke inagua_ap 0 0)) \<and> \<not> returns inagua_ap Copy_and_run"
    by (simp add: trace_inagua_ap inagua_ap_simps)
  ultimately show ?thesis
    using checkpoints_strictly_increasing [of inagua_bsp 0 0]
      checkpoints_strictly_increasing [of inagua_ap 0 0]
    by (simp add: inagua_bsp_simps inagua_ap_simps)
qed

text \<open>
  C6. In every invocation, whatever the self-test code, the reset path and the processor's
  role, and whatever the platform does, the call of \<^verbatim>\<open>amd_initmmio\<close> is the first thing
  that happens: it stands at the head of the trace, before every checkpoint, before the
  gating test's \<^verbatim>\<open>boot_cpu\<close> and before every other call.
\<close>

theorem amd_initmmio_first:
  "\<exists>rest. trace (invoke p bist cpu_init_detectedx) = Amd_initmmio # rest"
  by (simp add: trace_invoke sequence_defs)

text \<open>
  C7. Checkpoint 0x54 is in the trace exactly when \<^verbatim>\<open>copy_and_run\<close> was called and came
  back. In that case the function prints its error message, emits 0x54 as the last thing it
  does and returns: the trace ends with \<^verbatim>\<open>copy_and_run\<close>, the \<^verbatim>\<open>printk\<close> and the
  checkpoint, and 0x54 occurs nowhere before.
\<close>

theorem terminal_checkpoint_iff_copy_and_run_returned:
  "(Post_code 0x54 \<in> set (trace (invoke p bist cpu_init_detectedx))) =
     (Copy_and_run \<in> set (trace (invoke p bist cpu_init_detectedx)) \<and> returns p Copy_and_run) \<and>
   (Copy_and_run \<in> set (trace (invoke p bist cpu_init_detectedx)) \<and> returns p Copy_and_run \<longrightarrow>
     returned (invoke p bist cpu_init_detectedx) \<and>
     (\<exists>pre. trace (invoke p bist cpu_init_detectedx) =
        pre @ [Copy_and_run, Printk BIOS_ERR ''Error: copy_and_run() returned!\<newline>'' [],
               Post_code 0x54] \<and>
        Post_code 0x54 \<notin> set pre))"
proof -
  let ?front = "before_bist_report p cpu_init_detectedx @ [Report_bist_failure bist] @
       logging p cpu_init_detectedx @ vendor_phases"
  let ?tr = "trace (invoke p bist cpu_init_detectedx)"
  from trace_cases [of p cpu_init_detectedx bist]
  consider
    (through) "?tr = ?front @ reached p hand_over"
      "running (invoke p bist cpu_init_detectedx) = returns p Copy_and_run"
  | (halted) "Copy_and_run \<notin> set ?tr" "Post_code 0x54 \<notin> set ?tr"
    by fastforce
  then show ?thesis
  proof cases
    case through
    have no54: "Post_code 0x54 \<notin> set ?front" by (rule terminal_not_before)
    show ?thesis
    proof (cases "returns p Copy_and_run")
      case True
      with through(1) have "?tr = (?front @ [Post_code 0x50]) @
          [Copy_and_run, Printk BIOS_ERR ''Error: copy_and_run() returned!\<newline>'' [],
           Post_code 0x54]"
        by (simp add: reached_hand_over)
      moreover have "Post_code 0x54 \<notin> set (?front @ [Post_code 0x50])"
        using no54 by simp
      ultimately have "\<exists>pre. ?tr =
          pre @ [Copy_and_run, Printk BIOS_ERR ''Error: copy_and_run() returned!\<newline>'' [],
                 Post_code 0x54] \<and>
          Post_code 0x54 \<notin> set pre"
        by (intro exI [of _ "?front @ [Post_code 0x50]"] conjI)
      moreover have "Post_code 0x54 \<in> set ?tr" and "Copy_and_run \<in> set ?tr"
        using through(1) True by (simp_all add: reached_hand_over)
      moreover have "returned (invoke p bist cpu_init_detectedx)"
        using through(2) True by (simp add: returned_def)
      ultimately show ?thesis using True by simp
    next
      case False
      with through(1) no54 have "Post_code 0x54 \<notin> set ?tr"
        by (simp add: reached_hand_over)
      with False show ?thesis by simp
    qed
  next
    case halted
    then show ?thesis by simp
  qed
qed

theorem terminal_checkpoint_iff_copy_and_run_returned_witness:
  "Post_code 0x54 \<in> set (trace (invoke inagua_returning 0 0)) \<and>
   returned (invoke inagua_returning 0 0) \<and>
   last (trace (invoke inagua_returning 0 0)) = Post_code 0x54 \<and>
   Post_code 0x54 \<notin> set (trace (invoke inagua_bsp 0 0))"
proof -
  have "Copy_and_run \<in> set (trace (invoke inagua_returning 0 0)) \<and>
      returns inagua_returning Copy_and_run"
    by (simp add: trace_inagua_returning inagua_returning_simps)
  moreover have "last (trace (invoke inagua_returning 0 0)) = Post_code 0x54"
    by (simp add: trace_inagua_returning)
  ultimately show ?thesis
    using terminal_checkpoint_iff_copy_and_run_returned [of inagua_returning 0 0]
      terminal_checkpoint_iff_copy_and_run_returned [of inagua_bsp 0 0]
    by (simp add: inagua_bsp_simps)
qed

text \<open>
  C8. On success the function never returns: when \<^verbatim>\<open>copy_and_run\<close> is reached and does
  not come back, the call of \<^verbatim>\<open>copy_and_run\<close> is the last thing in the trace and the
  function has not returned. The function returns only on failure: if it returns, then
  \<^verbatim>\<open>copy_and_run\<close> was called and came back, and the last thing the function did was to
  emit checkpoint 0x54. A halt inside any call keeps it from returning.
\<close>

theorem returns_only_when_copy_and_run_returned:
  "(Copy_and_run \<in> set (trace (invoke p bist cpu_init_detectedx)) \<and> \<not> returns p Copy_and_run \<longrightarrow>
      \<not> returned (invoke p bist cpu_init_detectedx) \<and>
      last (trace (invoke p bist cpu_init_detectedx)) = Copy_and_run) \<and>
   (returned (invoke p bist cpu_init_detectedx) \<longrightarrow>
      Copy_and_run \<in> set (trace (invoke p bist cpu_init_detectedx)) \<and> returns p Copy_and_run \<and>
      last (trace (invoke p bist cpu_init_detectedx)) = Post_code 0x54) \<and>
   returned (invoke p bist cpu_init_detectedx) =
     list_all (comes_back p) (full_sequence p bist cpu_init_detectedx)"
proof -
  let ?front = "before_bist_report p cpu_init_detectedx @ [Report_bist_failure bist] @
       logging p cpu_init_detectedx @ vendor_phases"
  let ?tr = "trace (invoke p bist cpu_init_detectedx)"
  have all: "returned (invoke p bist cpu_init_detectedx) =
     list_all (comes_back p) (full_sequence p bist cpu_init_detectedx)"
    by (simp only: returned_def running_invoke)
  from trace_cases [of p cpu_init_detectedx bist]
  consider
    (through) "?tr = ?front @ reached p hand_over"
      "running (invoke p bist cpu_init_detectedx) = returns p Copy_and_run"
  | (halted) "Copy_and_run \<notin> set ?tr" "\<not> running (invoke p bist cpu_init_detectedx)"
    by fastforce
  then have main: "(Copy_and_run \<in> set ?tr \<and> \<not> returns p Copy_and_run \<longrightarrow>
      \<not> returned (invoke p bist cpu_init_detectedx) \<and> last ?tr = Copy_and_run) \<and>
   (returned (invoke p bist cpu_init_detectedx) \<longrightarrow>
      Copy_and_run \<in> set ?tr \<and> returns p Copy_and_run \<and> last ?tr = Post_code 0x54)"
  proof cases
    case through
    then show ?thesis by (simp add: returned_def reached_hand_over)
  next
    case halted
    then show ?thesis by (simp add: returned_def)
  qed
  show ?thesis
    by (rule conjI [OF conjunct1 [OF main] conjI [OF conjunct2 [OF main] all]])
qed

theorem returns_only_when_copy_and_run_returned_witness:
  "\<not> returned (invoke inagua_bsp 0 0) \<and> last (trace (invoke inagua_bsp 0 0)) = Copy_and_run \<and>
   returned (invoke inagua_returning 0 0) \<and>
   last (trace (invoke inagua_returning 0 0)) = Post_code 0x54"
proof -
  have "Copy_and_run \<in> set (trace (invoke inagua_bsp 0 0)) \<and> \<not> returns inagua_bsp Copy_and_run"
    by (simp add: trace_inagua_bsp inagua_bsp_simps)
  moreover have "returned (invoke inagua_returning 0 0)"
    by (simp add: returned_def running_invoke sequence_defs inagua_returning_simps
        report_bist_failure_returns_def)
  ultimately show ?thesis
    using returns_only_when_copy_and_run_returned [of inagua_bsp 0 0]
      returns_only_when_copy_and_run_returned [of inagua_returning 0 0]
    by simp
qed

subsection \<open>Behind the logging step\<close>

lemma cpuid_not_before:
  "Cpuid_eax 1 \<notin> set (before_bist_report p cid @ [Report_bist_failure bist])"
  by (simp add: before_bist_report_def gated_block_def)

lemma list_all_comes_back_cong:
  assumes "returns p' = returns p"
  shows "list_all (comes_back p') cs = list_all (comes_back p) cs"
  by (induction cs) (simp_all add: comes_back_cong [OF assms])

lemma past_logging:
  assumes "Cpuid_eax 1 \<in> set (trace (invoke p bist cid))"
  shows "after_logging (trace (invoke p bist cid)) = reached p (vendor_phases @ hand_over)"
    and "running (invoke p bist cid) = list_all (comes_back p) (vendor_phases @ hand_over)"
proof -
  let ?front = "before_bist_report p cid @ [Report_bist_failure bist]"
  have "Cpuid_eax 1 \<in> set (reached p (?front @ (logging p cid @ vendor_phases @ hand_over)))"
    using assms by (simp only: trace_invoke full_sequence_split)
  then have front: "list_all (comes_back p) ?front"
    using cpuid_not_before by (rule reached_past)
  then have "trace (invoke p bist cid) =
      ?front @ reached p (logging p cid @ vendor_phases @ hand_over)"
    by (simp only: trace_invoke full_sequence_split reached_append if_True)
  also have "reached p (logging p cid @ vendor_phases @ hand_over) =
      logging p cid @ reached p (vendor_phases @ hand_over)"
    by (simp only: reached_append logging_comes_back if_True)
  finally have tr: "trace (invoke p bist cid) =
      ?front @ logging p cid @ reached p (vendor_phases @ hand_over)" .
  have "dropWhile (\<lambda>c. c \<noteq> Cpuid_eax 1) (trace (invoke p bist cid)) =
      dropWhile (\<lambda>c. c \<noteq> Cpuid_eax 1) (logging p cid @ reached p (vendor_phases @ hand_over))"
    unfolding tr using cpuid_not_before [of p cid bist]
    by (intro dropWhile_append2) metis
  then show "after_logging (trace (invoke p bist cid)) = reached p (vendor_phases @ hand_over)"
    by (simp add: after_logging_def logging_def)
  have "running (invoke p bist cid) =
      (list_all (comes_back p) ?front \<and> list_all (comes_back p) (logging p cid) \<and>
       list_all (comes_back p) (vendor_phases @ hand_over))"
    by (simp only: running_invoke full_sequence_split list_all_append)
  with front show "running (invoke p bist cid) =
      list_all (comes_back p) (vendor_phases @ hand_over)"
    by (simp only: logging_comes_back simp_thms)
qed

lemma inagua_other_cpu_simps:
  "bsp inagua_other_cpu" "returns inagua_other_cpu c = (c \<noteq> Copy_and_run)"
  "cpuid inagua_other_cpu leaf = 0x500F20"
  "SERIAL_DEV inagua_other_cpu = 0x2e04" "CONFIG_TTYS0_BASE inagua_other_cpu = 0x3f8"
  by (simp_all add: inagua_other_cpu_def inagua_bsp_def SERIAL_DEV_def)

lemma trace_inagua_other_cpu_warm:
  "trace (invoke inagua_other_cpu 0 1) =
     [Amd_initmmio, Post_code 0x34, Report_bist_failure 0, Cpuid_eax 1,
      Printk BIOS_DEBUG ''BSP Family_Model: %08x\<newline>'' [0x500F20],
      Printk BIOS_DEBUG ''cpu_init_detectedx = %08lx\<newline>'' [1],
      Post_code 0x37, Agesawrapper_amdinitreset, Post_code 0x39, Agesawrapper_amdinitearly,
      Post_code 0x40, Agesawrapper_amdinitpost, Post_code 0x41, Agesawrapper_amdinitenv,
      Amd_initenv, Post_code 0x50, Copy_and_run]"
  by (simp add: trace_invoke sequence_defs inagua_other_cpu_simps report_bist_failure_returns_def)

text \<open>
  C9. The logging step (\<^verbatim>\<open>cpuid_eax(1)\<close> and the two \<^verbatim>\<open>printk\<close> of the processor's
  family and model and of \<^verbatim>\<open>cpu_init_detectedx\<close>) has no effect on control. Take any two
  invocations that reach the step, on platforms whose opaque calls come back alike: whatever
  \<^verbatim>\<open>cpuid_eax\<close> reads and whatever \<^verbatim>\<open>cpu_init_detectedx\<close> is in either of them, the calls
  behind the step are the same in both, checkpoints, vendor steps and hand-over, and both
  return or both do not. What follows the step is the run of the vendor phases and the
  hand-over, in which neither value occurs.
\<close>

theorem logging_has_no_control_effect:
  assumes "returns p' = returns p"
    and "Cpuid_eax 1 \<in> set (trace (invoke p bist cpu_init_detectedx))"
    and "Cpuid_eax 1 \<in> set (trace (invoke p' bist' cpu_init_detectedx'))"
  shows "after_logging (trace (invoke p' bist' cpu_init_detectedx')) =
           after_logging (trace (invoke p bist cpu_init_detectedx)) \<and>
         returned (invoke p' bist' cpu_init_detectedx') =
           returned (invoke p bist cpu_init_detectedx) \<and>
         after_logging (trace (invoke p bist cpu_init_detectedx)) =
           reached p (vendor_phases @ hand_over)"
proof (intro conjI)
  show "after_logging (trace (invoke p' bist' cpu_init_detectedx')) =
      after_logging (trace (invoke p bist cpu_init_detectedx))"
    by (simp only: past_logging(1) [OF assms(2)] past_logging(1) [OF assms(3)]
        reached_cong [OF assms(1)])
  show "returned (invoke p' bist' cpu_init_detectedx') =
      returned (invoke p bist cpu_init_detectedx)"
    by (simp only: returned_def past_logging(2) [OF assms(2)] past_logging(2) [OF assms(3)]
        list_all_comes_back_cong [OF assms(1)])
  show "after_logging (trace (invoke p bist cpu_init_detectedx)) =
      reached p (vendor_phases @ hand_over)"
    by (rule past_logging(1) [OF assms(2)])
qed

theorem logging_has_no_control_effect_witness:
  "after_logging (trace (invoke inagua_other_cpu 0 1)) =
     after_logging (trace (invoke inagua_bsp 0 0)) \<and>
   after_logging (trace (invoke inagua_bsp 0 0)) =
     [Post_code 0x37, Agesawrapper_amdinitreset, Post_code 0x39, Agesawrapper_amdinitearly,
      Post_code 0x40, Agesawrapper_amdinitpost, Post_code 0x41, Agesawrapper_amdinitenv,
      Amd_initenv, Post_code 0x50, Copy_and_run] \<and>
   cpuid inagua_other_cpu 1 \<noteq> cpuid inagua_bsp 1"
proof -
  have same: "returns inagua_other_cpu = returns inagua_bsp"
    by (simp add: inagua_other_cpu_def)
  have here: "Cpuid_eax 1 \<in> set (trace (invoke inagua_bsp 0 0))"
    by (simp add: trace_inagua_bsp)
  have there: "Cpuid_eax 1 \<in> set (trace (invoke inagua_other_cpu 0 1))"
    by (simp add: trace_inagua_other_cpu_warm)
  have "reached inagua_bsp (vendor_phases @ hand_over) =
     [Post_code 0x37, Agesawrapper_amdinitreset, Post_code 0x39, Agesawrapper_amdinitearly,
      Post_code 0x40, Agesawrapper_amdinitpost, Post_code 0x41, Agesawrapper_amdinitenv,
      Amd_initenv, Post_code 0x50, Copy_and_run]"
    by (simp add: vendor_phases_def hand_over_def inagua_bsp_simps)
  then show ?thesis
    using logging_has_no_control_effect [OF same here there]
    by (simp add: inagua_bsp_simps inagua_other_cpu_simps)
qed

subsection \<open>What the behaviour depends on\<close>

lemma invoke_eq:
  "invoke p bist cid =
     \<lparr>trace = reached p (full_sequence p bist cid),
      running = list_all (comes_back p) (full_sequence p bist cid)\<rparr>"
  by (simp add: invoke_def cache_as_ram_main_plays at_entry_def play_running)

lemma full_sequence_cong:
  assumes "bsp p' = bsp p" and "cpuid p' 1 = cpuid p 1"
    and "SERIAL_DEV p' = SERIAL_DEV p" and "CONFIG_TTYS0_BASE p' = CONFIG_TTYS0_BASE p"
  shows "full_sequence p' bist cid = full_sequence p bist cid"
  using assms by (simp add: sequence_defs)

text \<open>
  C10, as the function stands. The trace is not a function of \<^verbatim>\<open>bist\<close>,
  \<^verbatim>\<open>cpu_init_detectedx\<close> and the answer of \<^verbatim>\<open>boot_cpu()\<close> alone: the first \<^verbatim>\<open>printk\<close> has
  the value of \<^verbatim>\<open>cpuid_eax(1)\<close> as its argument, and the run ends where a call does not come
  back. Two boot-strap processors of different stepping, both started cold with a passed
  self test, print different values; and a next stage that returns adds the error message
  and checkpoint 0x54 to the trace.
\<close>

theorem behaviour_not_determined_by_three_inputs:
  "bsp inagua_other_cpu = bsp inagua_bsp \<and>
   trace (invoke inagua_other_cpu 0 0) \<noteq> trace (invoke inagua_bsp 0 0) \<and>
   bsp inagua_returning = bsp inagua_bsp \<and>
   checkpoints (trace (invoke inagua_returning 0 0)) \<noteq> checkpoints (trace (invoke inagua_bsp 0 0))"
  by (simp add: trace_inagua_bsp trace_inagua_returning inagua_bsp_simps inagua_other_cpu_simps
      inagua_returning_simps trace_invoke sequence_defs report_bist_failure_returns_def)

text \<open>
  C10, amended. The trace, and whether the function returns, is a function of \<^verbatim>\<open>bist\<close>,
  \<^verbatim>\<open>cpu_init_detectedx\<close>, the answer of \<^verbatim>\<open>boot_cpu()\<close>, the value of \<^verbatim>\<open>cpuid_eax(1)\<close> and
  of which opaque calls come back, for one build of the firmware (one \<^verbatim>\<open>SERIAL_DEV\<close> and
  one \<^verbatim>\<open>CONFIG_TTYS0_BASE\<close>): two invocations that agree on these make the same calls with
  the same arguments in the same order.
\<close>

theorem behaviour_determined_by_inputs:
  assumes "bsp p' = bsp p" and "cpuid p' 1 = cpuid p 1" and "returns p' = returns p"
    and "SERIAL_DEV p' = SERIAL_DEV p" and "CONFIG_TTYS0_BASE p' = CONFIG_TTYS0_BASE p"
  shows "invoke p' bist cpu_init_detectedx = invoke p bist cpu_init_detectedx"
  by (simp only: invoke_eq full_sequence_cong [OF assms(1,2,4,5)] reached_cong [OF assms(3)]
      list_all_comes_back_cong [OF assms(3)])

theorem behaviour_determined_by_inputs_witness:
  "invoke (inagua_bsp\<lparr>cpuid := (\<lambda>leaf. if leaf = 1 then 0x500F10 else 0)\<rparr>) 0 0 =
     invoke inagua_bsp 0 0 \<and>
   cpuid (inagua_bsp\<lparr>cpuid := (\<lambda>leaf. if leaf = 1 then 0x500F10 else 0)\<rparr>) 2 \<noteq>
     cpuid inagua_bsp 2"
proof -
  let ?p' = "inagua_bsp\<lparr>cpuid := (\<lambda>leaf. if leaf = 1 then 0x500F10 else 0)\<rparr>"
  have "bsp ?p' = bsp inagua_bsp" and "cpuid ?p' 1 = cpuid inagua_bsp 1"
    and "returns ?p' = returns inagua_bsp" and "SERIAL_DEV ?p' = SERIAL_DEV inagua_bsp"
    and "CONFIG_TTYS0_BASE ?p' = CONFIG_TTYS0_BASE inagua_bsp"
    by (simp_all add: inagua_bsp_simps SERIAL_DEV_def)
  then have "invoke ?p' 0 0 = invoke inagua_bsp 0 0"
    by (rule behaviour_determined_by_inputs)
  then show ?thesis by (simp add: inagua_bsp_simps)
qed

end
